theory Spec2Isabelle
  imports Main "HOL-Library.AList" "HOL-Library.List_Lexorder" "HOL-Library.Char_ord"
    "HOL-Library.Sublist" "HOL-Library.Multiset"
begin

section \<open>MemoryBridge: a shallow embedding of memorybridge.py\<close>

text \<open>
  The program is a key-value store kept in one SQLite table, \<^verbatim>\<open>memories\<close>, that
  several agents share. Every method of the class \<^verbatim>\<open>MemoryBridge\<close> opens a connection,
  runs one or two SQL statements and closes the connection again. The embedding keeps
  the table as the list of its rows (in insertion order) and passes it through every
  method explicitly.

  Strings are lists of characters; a character stands for one code point below 256.
  Python's integers are \<^typ>\<open>int\<close>. Floating-point numbers are not modelled.
\<close>

subsection \<open>Python values and the json module\<close>

text \<open>
  The values the store handles: the JSON type lattice (null, booleans, integers,
  strings, lists, dictionaries with string keys in insertion order), and
  \<open>PyObject cls\<close> for an instance of any class that \<^verbatim>\<open>json.dumps\<close> rejects.
\<close>

datatype pyval =
    PyNone
  | PyBool bool
  | PyInt int
  | PyStr string
  | PyList "pyval list"
  | PyDict "(string \<times> pyval) list"
  | PyObject string

datatype py_error =
    ValueError string
  | TypeError string
  | JSONDecodeError
  | OperationalError string

text \<open>\<^verbatim>\<open>str(e)\<close>\<close>

fun error_text :: "py_error \<Rightarrow> string" where
  "error_text (ValueError msg) = msg"
| "error_text (TypeError msg) = msg"
| "error_text JSONDecodeError = ''Expecting value''"
| "error_text (OperationalError msg) = msg"

abbreviation DQ :: char where "DQ \<equiv> CHR 0x22"
abbreviation BS :: char where "BS \<equiv> CHR 0x5C"

text \<open>Truthiness, as \<^verbatim>\<open>if metadata\<close> tests it.\<close>

fun py_truthy :: "pyval \<Rightarrow> bool" where
  "py_truthy PyNone = False"
| "py_truthy (PyBool b) = b"
| "py_truthy (PyInt i) = (i \<noteq> 0)"
| "py_truthy (PyStr s) = (s \<noteq> [])"
| "py_truthy (PyList xs) = (xs \<noteq> [])"
| "py_truthy (PyDict kvs) = (kvs \<noteq> [])"
| "py_truthy (PyObject c) = True"

text \<open>\<^verbatim>\<open>type(value).__name__\<close>\<close>

fun type_name :: "pyval \<Rightarrow> string" where
  "type_name PyNone = ''NoneType''"
| "type_name (PyBool b) = ''bool''"
| "type_name (PyInt i) = ''int''"
| "type_name (PyStr s) = ''str''"
| "type_name (PyList xs) = ''list''"
| "type_name (PyDict kvs) = ''dict''"
| "type_name (PyObject c) = c"

text \<open>A Python dictionary has no key twice.\<close>

fun wf_pyval :: "pyval \<Rightarrow> bool" where
  "wf_pyval (PyList xs) = list_all wf_pyval xs"
| "wf_pyval (PyDict kvs) = (distinct (map fst kvs) \<and> list_all (\<lambda>kv. wf_pyval (snd kv)) kvs)"
| "wf_pyval v = True"

fun serializable :: "pyval \<Rightarrow> bool" where
  "serializable (PyList xs) = list_all serializable xs"
| "serializable (PyDict kvs) = list_all (\<lambda>kv. serializable (snd kv)) kvs"
| "serializable (PyObject c) = False"
| "serializable v = True"

subsubsection \<open>json.dumps\<close>

definition digit_char :: "nat \<Rightarrow> char" where
  "digit_char n = char_of (48 + n)"

function show_nat :: "nat \<Rightarrow> string" where
  "show_nat n = (if n < 10 then [digit_char n] else show_nat (n div 10) @ [digit_char (n mod 10)])"
  by pat_completeness auto
termination
  by (relation "measure id") auto

declare show_nat.simps [simp del]

definition show_int :: "int \<Rightarrow> string" where
  "show_int i = (if i < 0 then CHR ''-'' # show_nat (nat (- i)) else show_nat (nat i))"

definition hex_digit :: "nat \<Rightarrow> char" where
  "hex_digit n = ''0123456789abcdef'' ! (n mod 16)"

text \<open>
  With \<^verbatim>\<open>ensure_ascii\<close> (the default) every character outside the range from space
  to tilde is written as an escape.
\<close>

definition escape_char :: "char \<Rightarrow> string" where
  "escape_char c =
     (if c = DQ then [BS, DQ]
      else if c = BS then [BS, BS]
      else if c = CHR 0x0A then [BS, CHR ''n'']
      else if c = CHR 0x0D then [BS, CHR ''r'']
      else if c = CHR 0x09 then [BS, CHR ''t'']
      else if c = CHR 0x08 then [BS, CHR ''b'']
      else if c = CHR 0x0C then [BS, CHR ''f'']
      else if (of_char c :: nat) < 32 \<or> 126 < (of_char c :: nat)
        then [BS, CHR ''u'', CHR ''0'', CHR ''0'',
              hex_digit (of_char c div 16), hex_digit (of_char c mod 16)]
      else [c])"

definition encode_str :: "string \<Rightarrow> string" where
  "encode_str s = DQ # concat (map escape_char s) @ [DQ]"

fun join_comma :: "string list \<Rightarrow> string" where
  "join_comma [] = []"
| "join_comma [x] = x"
| "join_comma (x # y # ys) = x @ '', '' @ join_comma (y # ys)"

fun encode :: "pyval \<Rightarrow> string" where
  "encode PyNone = ''null''"
| "encode (PyBool b) = (if b then ''true'' else ''false'')"
| "encode (PyInt i) = show_int i"
| "encode (PyStr s) = encode_str s"
| "encode (PyList xs) = ''['' @ join_comma (map encode xs) @ '']''"
| "encode (PyDict kvs) =
     ''{'' @ join_comma (map (\<lambda>kv. encode_str (fst kv) @ '': '' @ encode (snd kv)) kvs) @ ''}''"
| "encode (PyObject c) = []"

text \<open>
  \<^verbatim>\<open>json.dumps\<close> raises \<^verbatim>\<open>TypeError\<close> at the first object it cannot write; its
  message names the class of that object, which the model leaves out.
\<close>

definition json_dumps :: "pyval \<Rightarrow> py_error + string" where
  "json_dumps v =
     (if serializable v then Inr (encode v)
      else Inl (TypeError ''Object is not JSON serializable''))"

subsubsection \<open>json.loads\<close>

text \<open>
  The decoder follows \<^verbatim>\<open>json.decoder\<close>: \<open>scanstring\<close> is \<^verbatim>\<open>py_scanstring\<close> in strict
  mode, \<open>parse_value\<close> is \<^verbatim>\<open>scan_once\<close>, \<open>parse_elems\<close> and \<open>parse_members\<close> are the
  loops of \<^verbatim>\<open>JSONArray\<close> and \<^verbatim>\<open>JSONObject\<close>. A text that denotes a value outside
  \<^typ>\<open>pyval\<close> (a fraction, an exponent, \<^verbatim>\<open>NaN\<close>, a code point above 255) is
  reported as undecodable. The recursion is bounded by fuel; \<open>json_loads\<close> supplies
  more fuel than the text has characters.
\<close>

definition is_ws :: "char \<Rightarrow> bool" where
  "is_ws c = (c = CHR '' '' \<or> c = CHR 0x09 \<or> c = CHR 0x0A \<or> c = CHR 0x0D)"

definition skip_ws :: "string \<Rightarrow> string" where
  "skip_ws s = dropWhile is_ws s"

definition is_digit :: "char \<Rightarrow> bool" where
  "is_digit c = (48 \<le> (of_char c :: nat) \<and> (of_char c :: nat) \<le> 57)"

definition digits_val :: "string \<Rightarrow> nat" where
  "digits_val ds = foldl (\<lambda>acc c. acc * 10 + (of_char c - 48)) 0 ds"

definition hex_val :: "char \<Rightarrow> nat option" where
  "hex_val c =
     (let n = (of_char c :: nat) in
      if 48 \<le> n \<and> n \<le> 57 then Some (n - 48)
      else if 97 \<le> n \<and> n \<le> 102 then Some (n - 87)
      else if 65 \<le> n \<and> n \<le> 70 then Some (n - 55)
      else None)"

definition hex4 :: "string \<Rightarrow> nat option" where
  "hex4 s =
     (case s of
        a # b # c # d # r \<Rightarrow>
          (case (hex_val a, hex_val b, hex_val c, hex_val d) of
             (Some x, Some y, Some z, Some w) \<Rightarrow> Some (((x * 16 + y) * 16 + z) * 16 + w)
           | _ \<Rightarrow> None)
      | _ \<Rightarrow> None)"

definition unescape :: "char \<Rightarrow> char option" where
  "unescape e =
     (if e = DQ then Some DQ
      else if e = BS then Some BS
      else if e = CHR ''/'' then Some (CHR ''/'')
      else if e = CHR ''b'' then Some (CHR 0x08)
      else if e = CHR ''f'' then Some (CHR 0x0C)
      else if e = CHR ''n'' then Some (CHR 0x0A)
      else if e = CHR ''r'' then Some (CHR 0x0D)
      else if e = CHR ''t'' then Some (CHR 0x09)
      else None)"

fun scanstring :: "string \<Rightarrow> (string \<times> string) option" where
  "scanstring [] = None"
| "scanstring (c # r) =
     (if c = DQ then Some ([], r)
      else if c = BS then
        (case r of
           [] \<Rightarrow> None
         | e # r' \<Rightarrow>
             if e = CHR ''u'' then
               (case hex4 r' of
                  None \<Rightarrow> None
                | Some n \<Rightarrow>
                    if n < 256 then map_option (apfst ((#) (char_of n))) (scanstring (drop 4 r'))
                    else None)
             else
               (case unescape e of
                  None \<Rightarrow> None
                | Some ch \<Rightarrow> map_option (apfst ((#) ch)) (scanstring r')))
      else if (of_char c :: nat) < 32 then None
      else map_option (apfst ((#) c)) (scanstring r))"

definition scan_int :: "string \<Rightarrow> (int \<times> string) option" where
  "scan_int s =
     (let neg = (s \<noteq> [] \<and> hd s = CHR ''-'');
          t = (if neg then tl s else s);
          ds = (if t \<noteq> [] \<and> hd t = CHR ''0'' then ''0'' else takeWhile is_digit t);
          r = drop (length ds) t
      in if ds = [] then None
         else if r \<noteq> [] \<and> hd r \<in> set ''.eE'' then None
         else Some ((if neg then - int (digits_val ds) else int (digits_val ds)), r))"

definition py_dict :: "(string \<times> pyval) list \<Rightarrow> (string \<times> pyval) list" where
  "py_dict ps = foldl (\<lambda>d kv. AList.update (fst kv) (snd kv) d) [] ps"

fun parse_value :: "nat \<Rightarrow> string \<Rightarrow> (pyval \<times> string) option"
  and parse_elems :: "nat \<Rightarrow> string \<Rightarrow> (pyval list \<times> string) option"
  and parse_members :: "nat \<Rightarrow> string \<Rightarrow> ((string \<times> pyval) list \<times> string) option"
where
  "parse_value 0 s = None"
| "parse_value (Suc n) s =
     (case s of
        [] \<Rightarrow> None
      | c # r \<Rightarrow>
          if c = DQ then map_option (apfst PyStr) (scanstring r)
          else if c = CHR ''{'' then
            (case skip_ws r of
               [] \<Rightarrow> None
             | c' # r' \<Rightarrow>
                 if c' = CHR ''}'' then Some (PyDict [], r')
                 else map_option (apfst (\<lambda>ps. PyDict (py_dict ps))) (parse_members n (c' # r')))
          else if c = CHR ''['' then
            (case skip_ws r of
               [] \<Rightarrow> None
             | c' # r' \<Rightarrow>
                 if c' = CHR '']'' then Some (PyList [], r')
                 else map_option (apfst PyList) (parse_elems n (c' # r')))
          else if take 4 s = ''null'' then Some (PyNone, drop 4 s)
          else if take 4 s = ''true'' then Some (PyBool True, drop 4 s)
          else if take 5 s = ''false'' then Some (PyBool False, drop 5 s)
          else map_option (apfst PyInt) (scan_int s))"
| "parse_elems 0 s = None"
| "parse_elems (Suc n) s =
     (case parse_value n s of
        None \<Rightarrow> None
      | Some (v, r) \<Rightarrow>
          (case skip_ws r of
             [] \<Rightarrow> None
           | c # r' \<Rightarrow>
               if c = CHR '']'' then Some ([v], r')
               else if c = CHR '','' then map_option (apfst ((#) v)) (parse_elems n (skip_ws r'))
               else None))"
| "parse_members 0 s = None"
| "parse_members (Suc n) s =
     (case s of
        [] \<Rightarrow> None
      | c # r \<Rightarrow>
          if c \<noteq> DQ then None
          else
            (case scanstring r of
               None \<Rightarrow> None
             | Some (k, r1) \<Rightarrow>
                 (case skip_ws r1 of
                    [] \<Rightarrow> None
                  | c1 # r2 \<Rightarrow>
                      if c1 \<noteq> CHR '':'' then None
                      else
                        (case parse_value n (skip_ws r2) of
                           None \<Rightarrow> None
                         | Some (v, r3) \<Rightarrow>
                             (case skip_ws r3 of
                                [] \<Rightarrow> None
                              | c3 # r4 \<Rightarrow>
                                  if c3 = CHR ''}'' then Some ([(k, v)], r4)
                                  else if c3 = CHR '','' then
                                    map_option (apfst ((#) (k, v))) (parse_members n (skip_ws r4))
                                  else None)))))"

definition json_loads :: "string \<Rightarrow> py_error + pyval" where
  "json_loads s =
     (case parse_value (Suc (length s)) (skip_ws s) of
        None \<Rightarrow> Inl JSONDecodeError
      | Some (v, r) \<Rightarrow> if skip_ws r = [] then Inr v else Inl JSONDecodeError)"

subsection \<open>The table and the bridge\<close>

text \<open>
  One row of the table \<^verbatim>\<open>memories\<close>, with the columns of \<^verbatim>\<open>_init_database\<close>.
  \<open>col_key\<close> is the primary key; \<open>col_metadata_json\<close> is the only column that may be
  NULL. The timestamps are the texts that \<^verbatim>\<open>datetime.now().isoformat()\<close> returned;
  SQLite compares them as texts.
\<close>

record row =
  col_key :: string
  col_value_json :: string
  col_value_type :: string
  col_scope :: string
  col_owner :: string
  col_created :: string
  col_updated :: string
  col_access_count :: int
  col_metadata_json :: "string option"

text \<open>The state outside the process: the table in the database file, and what was printed.\<close>

record world =
  memories :: "row list"
  stdout :: "string list"

text \<open>The dataclass \<^verbatim>\<open>Memory\<close>; \<open>mem_metadata\<close> is \<open>PyNone\<close> where Python has \<^verbatim>\<open>None\<close>.\<close>

record Memory =
  mem_key :: string
  mem_value :: pyval
  mem_scope :: string
  mem_owner :: string
  mem_created :: string
  mem_updated :: string
  mem_access_count :: int
  mem_metadata :: pyval

record bridge =
  agent_name :: string

text \<open>\<^verbatim>\<open>str.upper\<close>, exact on ASCII names.\<close>

definition char_upper :: "char \<Rightarrow> char" where
  "char_upper c =
     (if 97 \<le> (of_char c :: nat) \<and> (of_char c :: nat) \<le> 122 then char_of ((of_char c :: nat) - 32)
      else c)"

definition str_upper :: "string \<Rightarrow> string" where
  "str_upper s = map char_upper s"

text \<open>\<^verbatim>\<open>MemoryBridge.__init__\<close>: the agent's name is kept in upper case.\<close>

definition MemoryBridge :: "string \<Rightarrow> bridge" where
  "MemoryBridge name = \<lparr>agent_name = str_upper name\<rparr>"

subsection \<open>The SQL statements\<close>

text \<open>\<^verbatim>\<open>SELECT ... WHERE key = ?\<close> followed by \<^verbatim>\<open>fetchone()\<close>.\<close>

definition select_by_key :: "string \<Rightarrow> row list \<Rightarrow> row option" where
  "select_by_key k tbl = find (\<lambda>r. col_key r = k) tbl"

text \<open>
  \<^verbatim>\<open>INSERT ... ON CONFLICT(key) DO UPDATE SET value_json, value_type, updated,
  metadata_json\<close>: a row with the key of \<open>new\<close> takes these four columns from \<open>new\<close> and
  keeps the others; without such a row, \<open>new\<close> is added.
\<close>

definition upsert :: "row \<Rightarrow> row list \<Rightarrow> row list" where
  "upsert new tbl =
     (if list_ex (\<lambda>r. col_key r = col_key new) tbl
      then map (\<lambda>r. if col_key r = col_key new
                     then r\<lparr>col_value_json := col_value_json new,
                            col_value_type := col_value_type new,
                            col_updated := col_updated new,
                            col_metadata_json := col_metadata_json new\<rparr>
                     else r) tbl
      else tbl @ [new])"

text \<open>
  \<^verbatim>\<open>UPDATE memories SET access_count = access_count + 1 WHERE key = ? OR key = ?\<close>.
  The counter is an unbounded integer here; the column of SQLite is 64 bits wide.
\<close>

definition bump_access :: "string \<Rightarrow> string \<Rightarrow> row list \<Rightarrow> row list" where
  "bump_access k1 k2 tbl =
     map (\<lambda>r. if col_key r = k1 \<or> col_key r = k2
               then r\<lparr>col_access_count := col_access_count r + 1\<rparr>
               else r) tbl"



text \<open>
  \<^verbatim>\<open>ORDER BY updated DESC\<close>. SQLite leaves the order of rows with the same
  \<open>updated\<close> open; the model fixes one.
\<close>

definition order_by_updated_desc :: "row list \<Rightarrow> row list" where
  "order_by_updated_desc rows = rev (sort_key col_updated rows)"

text \<open>What can go wrong in SQLite while \<^verbatim>\<open>store\<close> runs, with the text of the exception.\<close>

datatype db_fault = ConnectFails string | WriteFails string

subsection \<open>The methods of MemoryBridge\<close>

text \<open>
  \<^verbatim>\<open>store(key, value, scope, metadata)\<close>. \<open>fault\<close> says whether SQLite fails and
  where, \<open>now\<close> is the reading of the clock. \<^verbatim>\<open>sqlite3.connect\<close> stands outside the
  \<^verbatim>\<open>try\<close>; a failure of \<^verbatim>\<open>execute\<close> or \<^verbatim>\<open>commit\<close> is caught, printed, and
  answered with \<^verbatim>\<open>False\<close>.
\<close>

definition store ::
  "bridge \<Rightarrow> db_fault option \<Rightarrow> string \<Rightarrow> world \<Rightarrow> string \<Rightarrow> pyval \<Rightarrow> string \<Rightarrow> pyval
     \<Rightarrow> (py_error + bool) \<times> world" where
  "store b fault now w key val scope metadata =
     (if key = [] then (Inl (ValueError ''Key must be a non-empty string''), w)
      else if scope \<notin> set [''agent'', ''team'', ''global'']
        then (Inl (ValueError (''Scope must be 'agent', 'team', or 'global'' @ [CHR 0x27])), w)
      else
        let key' = (if scope = ''agent'' then agent_name b @ '':'' @ key else key) in
        case json_dumps val of
          Inl e \<Rightarrow> (Inl (ValueError (''Value must be JSON-serializable: '' @ error_text e)), w)
        | Inr value_json \<Rightarrow>
            (case (if py_truthy metadata then map_sum id Some (json_dumps metadata) else Inr None) of
               Inl e \<Rightarrow> (Inl e, w)
             | Inr metadata_json \<Rightarrow>
                 (case fault of
                    Some (ConnectFails msg) \<Rightarrow> (Inl (OperationalError msg), w)
                  | Some (WriteFails msg) \<Rightarrow>
                      (Inr False, w\<lparr>stdout := stdout w @ [''Database error: '' @ msg]\<rparr>)
                  | None \<Rightarrow>
                      (Inr True,
                       w\<lparr>memories :=
                           upsert \<lparr>col_key = key', col_value_json = value_json,
                                   col_value_type = type_name val, col_scope = scope,
                                   col_owner = agent_name b, col_created = now,
                                   col_updated = now, col_access_count = 0,
                                   col_metadata_json = metadata_json\<rparr>
                                  (memories w)\<rparr>))))"

text \<open>
  \<^verbatim>\<open>get(key, scope, default)\<close>. The increment is committed before the text is
  decoded.
\<close>

definition get ::
  "bridge \<Rightarrow> world \<Rightarrow> string \<Rightarrow> string option \<Rightarrow> pyval \<Rightarrow> (py_error + pyval) \<times> world" where
  "get b w key scope dflt =
     (let prefixed_key =
            (if scope = Some ''agent'' \<or> scope = None then agent_name b @ '':'' @ key else key);
          row1 = select_by_key prefixed_key (memories w);
          row2 = (if row1 = None \<and> scope = None then select_by_key key (memories w) else row1)
      in case row2 of
           Some r \<Rightarrow>
             (json_loads (col_value_json r),
              w\<lparr>memories := bump_access prefixed_key key (memories w)\<rparr>)
         | None \<Rightarrow> (Inr dflt, w))"

text \<open>The loop that builds the \<^verbatim>\<open>Memory\<close> objects in \<^verbatim>\<open>search\<close> and \<^verbatim>\<open>list_all\<close>.\<close>

definition to_memory :: "row \<Rightarrow> py_error + Memory" where
  "to_memory r =
     (case json_loads (col_value_json r) of
        Inl e \<Rightarrow> Inl e
      | Inr v \<Rightarrow>
          (case (case col_metadata_json r of
                   None \<Rightarrow> Inr PyNone
                 | Some mj \<Rightarrow> if mj = [] then Inr PyNone else json_loads mj) of
             Inl e \<Rightarrow> Inl e
           | Inr md \<Rightarrow>
               Inr \<lparr>mem_key = col_key r, mem_value = v, mem_scope = col_scope r,
                    mem_owner = col_owner r, mem_created = col_created r,
                    mem_updated = col_updated r, mem_access_count = col_access_count r,
                    mem_metadata = md\<rparr>))"




text \<open>\<^verbatim>\<open>delete(key, scope)\<close>; the answer is \<^verbatim>\<open>cursor.rowcount > 0\<close>.\<close>

definition delete ::
  "bridge \<Rightarrow> world \<Rightarrow> string \<Rightarrow> string option \<Rightarrow> (py_error + bool) \<times> world" where
  "delete b w key scope =
     (let key' = (if scope = Some ''agent'' then agent_name b @ '':'' @ key else key);
          rowcount = length (filter (\<lambda>r. col_key r = key') (memories w))
      in (Inr (rowcount > 0),
          w\<lparr>memories := filter (\<lambda>r. col_key r \<noteq> key') (memories w)\<rparr>))"



subsection \<open>Notions for the statements and their proofs\<close>

text \<open>What \<^verbatim>\<open>json.dumps\<close> writes after a value: nothing, a comma or a closing bracket.\<close>

definition follows :: "string \<Rightarrow> bool" where
  "follows rest = (rest = [] \<or> hd rest \<in> set '',]}'')"

text \<open>The first character of an encoded value: no white space and no closing bracket.\<close>

definition starts_value :: "string \<Rightarrow> bool" where
  "starts_value s = (s \<noteq> [] \<and> \<not> is_ws (hd s) \<and> hd s \<noteq> CHR '']'' \<and> hd s \<noteq> CHR ''}'')"

text \<open>A row decodes when the loop of \<^verbatim>\<open>search\<close> builds its \<^verbatim>\<open>Memory\<close> without raising.\<close>

definition decodes :: "row \<Rightarrow> bool" where
  "decodes r = (case to_memory r of Inl e \<Rightarrow> False | Inr m \<Rightarrow> True)"

text \<open>The row that \<^verbatim>\<open>store\<close> hands to the \<^verbatim>\<open>INSERT\<close> statement.\<close>

definition stored_row :: "bridge \<Rightarrow> string \<Rightarrow> string \<Rightarrow> pyval \<Rightarrow> string \<Rightarrow> pyval \<Rightarrow> row" where
  "stored_row b now k v sc md =
     \<lparr>col_key = (if sc = ''agent'' then agent_name b @ '':'' @ k else k),
      col_value_json = encode v, col_value_type = type_name v, col_scope = sc,
      col_owner = agent_name b, col_created = now, col_updated = now, col_access_count = 0,
      col_metadata_json = (if py_truthy md then Some (encode md) else None)\<rparr>"

subsection \<open>A small database for examples\<close>

definition atlas :: bridge where
  "atlas = MemoryBridge ''atlas''"

definition forge :: bridge where
  "forge = MemoryBridge ''Forge''"

definition row_agent_note :: row where
  "row_agent_note =
     \<lparr>col_key = ''ATLAS:note'', col_value_json = ''41'', col_value_type = ''int'',
      col_scope = ''agent'', col_owner = ''ATLAS'', col_created = ''2026-01-18T10:00:00'',
      col_updated = ''2026-01-18T10:00:00'', col_access_count = 0,
      col_metadata_json = None\<rparr>"

definition row_team_note :: row where
  "row_team_note =
     \<lparr>col_key = ''note'', col_value_json = ''42'', col_value_type = ''int'',
      col_scope = ''team'', col_owner = ''FORGE'', col_created = ''2026-01-18T11:00:00'',
      col_updated = ''2026-01-18T11:30:00'', col_access_count = 3,
      col_metadata_json = None\<rparr>"

definition row_team_status :: row where
  "row_team_status =
     \<lparr>col_key = ''status'', col_value_json = [DQ] @ ''Build ok'' @ [DQ],
      col_value_type = ''str'', col_scope = ''team'', col_owner = ''ATLAS'',
      col_created = ''2026-01-18T09:00:00'', col_updated = ''2026-01-18T12:00:00'',
      col_access_count = 1, col_metadata_json = None\<rparr>"

definition empty_world :: world where
  "empty_world = \<lparr>memories = [], stdout = []\<rparr>"

definition demo_world :: world where
  "demo_world = \<lparr>memories = [row_agent_note, row_team_note, row_team_status], stdout = []\<rparr>"

section \<open>Auxiliary facts\<close>

subsection \<open>Evaluating the examples\<close>

lemma atlas_name: "agent_name atlas = ''ATLAS''"
  by code_simp

lemma forge_name: "agent_name forge = ''FORGE''"
  by code_simp

lemma show41: "show_int 41 = ''41''"
  by code_simp

lemma show42: "show_int 42 = ''42''"
  by code_simp

lemma loads41: "json_loads ''41'' = Inr (PyInt 41)"
  by code_simp


lemmas demo_rows = row_agent_note_def row_team_note_def row_team_status_def

lemmas store_eval = store_def json_dumps_def Let_def upsert_def

subsection \<open>Selecting and upserting\<close>

lemma filter_neq_iff: "(filter P xs \<noteq> xs) = list_ex (\<lambda>x. \<not> P x) xs"
  by (simp add: filter_id_conv list_ex_iff)

lemma select_by_key_None: "(select_by_key k tbl = None) = (\<not> list_ex (\<lambda>r. col_key r = k) tbl)"
  by (auto simp: select_by_key_def find_None_iff list_ex_iff)

lemma select_by_key_Some_key: "select_by_key k tbl = Some r \<Longrightarrow> col_key r = k \<and> r \<in> set tbl"
  by (auto simp: select_by_key_def find_Some_iff)

lemma find_append: "find P (xs @ ys) = (case find P xs of None \<Rightarrow> find P ys | Some x \<Rightarrow> Some x)"
  by (induction xs) auto

lemma find_map_update:
  assumes "\<And>r. col_key (f r) = col_key r"
  shows "find (\<lambda>r. col_key r = k) (map f tbl) = map_option f (find (\<lambda>r. col_key r = k) tbl)"
  using assms by (induction tbl) auto

lemma select_upsert_same:
  "select_by_key (col_key new) (upsert new tbl) =
     (case select_by_key (col_key new) tbl of
        Some old \<Rightarrow> Some (old\<lparr>col_value_json := col_value_json new,
                             col_value_type := col_value_type new,
                             col_updated := col_updated new,
                             col_metadata_json := col_metadata_json new\<rparr>)
      | None \<Rightarrow> Some new)"
proof (cases "list_ex (\<lambda>r. col_key r = col_key new) tbl")
  case True
  then obtain old where old: "select_by_key (col_key new) tbl = Some old"
    using select_by_key_None [of "col_key new" tbl] by auto
  have "select_by_key (col_key new) (upsert new tbl)
          = map_option (\<lambda>r. if col_key r = col_key new
                     then r\<lparr>col_value_json := col_value_json new,
                            col_value_type := col_value_type new,
                            col_updated := col_updated new,
                            col_metadata_json := col_metadata_json new\<rparr>
                     else r) (select_by_key (col_key new) tbl)"
    using True unfolding upsert_def select_by_key_def
    by (simp add: find_map_update)
  with old select_by_key_Some_key [OF old] show ?thesis by simp
next
  case False
  then have none: "select_by_key (col_key new) tbl = None"
    by (simp add: select_by_key_None)
  from False have "select_by_key (col_key new) (upsert new tbl) = Some new"
    using none unfolding upsert_def select_by_key_def
    by (simp add: find_append)
  with none show ?thesis by simp
qed





subsection \<open>What a successful store is\<close>

lemma store_True_iff:
  "(store b fault now w k v sc md = (Inr True, w')) =
     (k \<noteq> [] \<and> sc \<in> set [''agent'', ''team'', ''global''] \<and> serializable v
      \<and> (py_truthy md \<longrightarrow> serializable md) \<and> fault = None
      \<and> w' = w\<lparr>memories := upsert (stored_row b now k v sc md) (memories w)\<rparr>)"
  unfolding store_def json_dumps_def Let_def stored_row_def
  by (auto split: sum.splits option.splits db_fault.splits if_splits)

lemma store_memories:
  "memories (snd (store b fault now w k v sc md))
     = (if fst (store b fault now w k v sc md) = Inr True
        then upsert (stored_row b now k v sc md) (memories w) else memories w)"
  unfolding store_def Let_def json_dumps_def stored_row_def
  by (simp split: sum.splits option.splits db_fault.splits)

lemma stored_row_key [simp]:
  "col_key (stored_row b now k v sc md) = (if sc = ''agent'' then agent_name b @ '':'' @ k else k)"
  by (simp add: stored_row_def)

subsection \<open>The operator LIKE\<close>








subsection \<open>Building the result of a query\<close>






lemma order_by_updated_desc_mset [simp]: "mset (order_by_updated_desc rows) = mset rows"
  by (simp add: order_by_updated_desc_def)

lemma order_by_updated_desc_set [simp]: "set (order_by_updated_desc rows) = set rows"
  by (simp add: order_by_updated_desc_def)







subsection \<open>Decoding what was encoded\<close>

lemma char_of_48: "char_of (48 :: nat) = CHR ''0''"
  using char_of_char [of "CHR ''0''", where ?'a = nat] by simp

lemma show_nat_small: "n < 10 \<Longrightarrow> show_nat n = [digit_char n]"
  by (subst show_nat.simps) simp

lemma show_nat_big:
  "\<not> n < 10 \<Longrightarrow> show_nat n = show_nat (n div 10) @ [digit_char (n mod 10)]"
  by (subst show_nat.simps) simp

lemma is_digit_digit_char: "n < 10 \<Longrightarrow> is_digit (digit_char n)"
  by (simp add: is_digit_def digit_char_def)

lemma digit_char_val: "n < 10 \<Longrightarrow> (of_char (digit_char n) :: nat) - 48 = n"
  by (simp add: digit_char_def)

lemma digit_char_zero: "n < 10 \<Longrightarrow> (digit_char n = CHR ''0'') = (n = 0)"
proof
  assume n: "n < 10" and "digit_char n = CHR ''0''"
  then have "(of_char (digit_char n) :: nat) = of_char (CHR ''0'')" by simp
  with n show "n = 0" by (simp add: digit_char_def)
next
  assume "n = 0"
  then show "digit_char n = CHR ''0''" by (simp add: digit_char_def char_of_48)
qed

lemma show_nat_digits: "\<forall>c\<in>set (show_nat n). is_digit c"
proof (induction n rule: show_nat.induct)
  case (1 n)
  show ?case
  proof (cases "n < 10")
    case True
    then show ?thesis by (simp add: show_nat_small is_digit_digit_char)
  next
    case False
    with 1 show ?thesis by (simp add: show_nat_big is_digit_digit_char)
  qed
qed

lemma show_nat_nonempty: "show_nat n \<noteq> []"
  by (cases "n < 10") (simp_all add: show_nat_small show_nat_big)

lemma digits_val_snoc: "digits_val (ds @ [c]) = digits_val ds * 10 + (of_char c - 48)"
  by (simp add: digits_val_def)

lemma digits_val_show_nat: "digits_val (show_nat n) = n"
proof (induction n rule: show_nat.induct)
  case (1 n)
  show ?case
  proof (cases "n < 10")
    case True
    then show ?thesis by (simp add: show_nat_small digits_val_def digit_char_val)
  next
    case False
    then have "digits_val (show_nat n) = digits_val (show_nat (n div 10)) * 10 + n mod 10"
      by (simp add: show_nat_big digits_val_snoc digit_char_val)
    with 1 False show ?thesis by simp
  qed
qed

lemma hd_show_nat_zero: "hd (show_nat n) = CHR ''0'' \<Longrightarrow> n = 0"
proof (induction n rule: show_nat.induct)
  case (1 n)
  show ?case
  proof (cases "n < 10")
    case True
    with "1.prems" show ?thesis by (simp add: show_nat_small digit_char_zero)
  next
    case False
    have "hd (show_nat n) = hd (show_nat (n div 10))"
      using False show_nat_nonempty [of "n div 10"] by (simp add: show_nat_big)
    with 1 False have "n div 10 = 0" by simp
    with False show ?thesis by simp
  qed
qed

lemma follows_not_digit: "follows rest \<Longrightarrow> rest \<noteq> [] \<Longrightarrow> \<not> is_digit (hd rest) \<and> hd rest \<notin> set ''.eE''"
  by (auto simp: follows_def is_digit_def)

lemma takeWhile_digits:
  assumes "follows rest"
  shows "takeWhile is_digit (show_nat n @ rest) = show_nat n"
proof -
  have "takeWhile is_digit rest = []"
    using assms follows_not_digit [of rest] by (cases rest) auto
  then show ?thesis
    using show_nat_digits [of n] by (simp add: takeWhile_append2)
qed

lemma scan_int_plain:
  assumes "s \<noteq> []" and "hd s \<noteq> CHR ''-''" and "hd s \<noteq> CHR ''0''"
    and "takeWhile is_digit s = ds" and "ds \<noteq> []" and "s = ds @ r"
    and "r = [] \<or> hd r \<notin> set ''.eE''"
  shows "scan_int s = Some (int (digits_val ds), r)"
proof -
  have "drop (length ds) s = r" using assms(6) by simp
  with assms(1-5,7) show ?thesis
    unfolding scan_int_def Let_def by auto
qed

lemma scan_int_zero:
  assumes "r = [] \<or> hd r \<notin> set ''.eE''"
  shows "scan_int (CHR ''0'' # r) = Some (0, r)"
  using assms unfolding scan_int_def Let_def by (auto simp: digits_val_def)

lemma scan_int_minus:
  assumes "t \<noteq> []" and "hd t \<noteq> CHR ''0''"
    and "takeWhile is_digit t = ds" and "ds \<noteq> []" and "t = ds @ r"
    and "r = [] \<or> hd r \<notin> set ''.eE''"
  shows "scan_int (CHR ''-'' # t) = Some (- int (digits_val ds), r)"
proof -
  have "drop (length ds) t = r" using assms(5) by simp
  with assms(1-4,6) show ?thesis
    unfolding scan_int_def Let_def by auto
qed

lemma follows_exp: "follows rest \<Longrightarrow> rest = [] \<or> hd rest \<notin> set ''.eE''"
  by (auto simp: follows_def)

lemma scan_int_show_nat:
  assumes "follows rest"
  shows "scan_int (show_nat n @ rest) = Some (int n, rest)"
proof -
  let ?s = "show_nat n @ rest"
  have ne: "?s \<noteq> []" using show_nat_nonempty by simp
  have hd: "hd ?s = hd (show_nat n)" using show_nat_nonempty by simp
  have dig: "is_digit (hd (show_nat n))"
    using show_nat_digits [of n] show_nat_nonempty [of n] by (cases "show_nat n") auto
  then have nominus: "hd ?s \<noteq> CHR ''-''" using hd by (auto simp: is_digit_def)
  show ?thesis
  proof (cases "hd (show_nat n) = CHR ''0''")
    case True
    then have n0: "n = 0" by (rule hd_show_nat_zero)
    have sn: "show_nat 0 = ''0''" by (simp add: show_nat_small digit_char_def char_of_48)
    show ?thesis
      using scan_int_zero [OF follows_exp [OF assms]] by (simp add: sn n0)
  next
    case False
    have tw: "takeWhile is_digit ?s = show_nat n" using assms by (rule takeWhile_digits)
    have "scan_int ?s = Some (int (digits_val (show_nat n)), rest)"
      using ne nominus _ tw show_nat_nonempty refl follows_exp [OF assms]
      by (rule scan_int_plain) (use False hd in simp)
    then show ?thesis by (simp add: digits_val_show_nat)
  qed
qed

lemma scan_int_show_int:
  assumes "follows rest"
  shows "scan_int (show_int i @ rest) = Some (i, rest)"
proof (cases "i < 0")
  case False
  then show ?thesis
    using scan_int_show_nat [OF assms, of "nat i"] by (simp add: show_int_def)
next
  case True
  let ?n = "nat (- i)"
  have n0: "?n \<noteq> 0" using True by simp
  have ni: "- int ?n = i" using True by simp
  have ne: "show_nat ?n @ rest \<noteq> []" using show_nat_nonempty by simp
  have h0: "hd (show_nat ?n @ rest) \<noteq> CHR ''0''"
    using hd_show_nat_zero [of ?n] n0 show_nat_nonempty [of ?n] by auto
  have tw: "takeWhile is_digit (show_nat ?n @ rest) = show_nat ?n"
    using assms by (rule takeWhile_digits)
  have "scan_int (CHR ''-'' # (show_nat ?n @ rest))
          = Some (- int (digits_val (show_nat ?n)), rest)"
    using ne h0 tw show_nat_nonempty refl follows_exp [OF assms] by (rule scan_int_minus)
  then have "scan_int (CHR ''-'' # (show_nat ?n @ rest)) = Some (i, rest)"
    unfolding digits_val_show_nat ni .
  then show ?thesis using True by (simp add: show_int_def)
qed

lemma hex_val_hex_digit_all: "list_all (\<lambda>d. hex_val (hex_digit d) = Some d) [0..<16]"
  by code_simp

lemma hex_val_hex_digit: "d < 16 \<Longrightarrow> hex_val (hex_digit d) = Some d"
  using hex_val_hex_digit_all unfolding list_all_iff by simp

lemma of_char_less_256: "(of_char c :: nat) < 256"
proof -
  have "(of_char c :: nat) mod 256 < 256" by simp
  then show ?thesis by simp
qed

lemma hex4_escape:
  "hex4 (CHR ''0'' # CHR ''0'' # hex_digit (of_char c div 16) # hex_digit (of_char c mod 16) # r)
     = Some (of_char c)"
proof -
  have d1: "(of_char c :: nat) div 16 < 16" using of_char_less_256 [of c] by arith
  have d2: "(of_char c :: nat) mod 16 < 16" by simp
  have z: "hex_val (CHR ''0'') = Some 0" by (simp add: hex_val_def)
  show ?thesis
    unfolding hex4_def
    by (simp add: z hex_val_hex_digit [OF d1] hex_val_hex_digit [OF d2])
qed

lemma scanstring_escape_char:
  "scanstring (escape_char c @ r) = map_option (apfst ((#) c)) (scanstring r)"
proof -
  consider (dq) "c = DQ" | (bs) "c = BS" | (nl) "c = CHR 0x0A" | (cr) "c = CHR 0x0D"
    | (tab) "c = CHR 0x09" | (bsp) "c = CHR 0x08" | (ff) "c = CHR 0x0C"
    | (uni) "c \<noteq> DQ" "c \<noteq> BS" "c \<noteq> CHR 0x0A" "c \<noteq> CHR 0x0D" "c \<noteq> CHR 0x09"
         "c \<noteq> CHR 0x08" "c \<noteq> CHR 0x0C" "(of_char c :: nat) < 32 \<or> 126 < (of_char c :: nat)"
    | (plain) "c \<noteq> DQ" "c \<noteq> BS" "\<not> ((of_char c :: nat) < 32 \<or> 126 < (of_char c :: nat))"
    by blast
  then show ?thesis
  proof cases
    case dq then show ?thesis by (simp add: escape_char_def unescape_def)
  next
    case bs then show ?thesis by (simp add: escape_char_def unescape_def)
  next
    case nl then show ?thesis by (simp add: escape_char_def unescape_def)
  next
    case cr then show ?thesis by (simp add: escape_char_def unescape_def)
  next
    case tab then show ?thesis by (simp add: escape_char_def unescape_def)
  next
    case bsp then show ?thesis by (simp add: escape_char_def unescape_def)
  next
    case ff then show ?thesis by (simp add: escape_char_def unescape_def)
  next
    case uni
    have e: "escape_char c = [BS, CHR ''u'', CHR ''0'', CHR ''0'',
              hex_digit (of_char c div 16), hex_digit (of_char c mod 16)]"
      using uni by (simp add: escape_char_def)
    show ?thesis
      unfolding e using of_char_less_256 [of c]
      by (simp add: hex4_escape)
  next
    case plain
    then have e: "escape_char c = [c]" by (auto simp: escape_char_def)
    show ?thesis unfolding e using plain by simp
  qed
qed

lemma scanstring_escaped:
  "scanstring (concat (map escape_char s) @ DQ # rest) = Some (s, rest)"
proof (induction s)
  case Nil
  then show ?case by simp
next
  case (Cons c s)
  have "scanstring (concat (map escape_char (c # s)) @ DQ # rest)
          = scanstring (escape_char c @ (concat (map escape_char s) @ DQ # rest))"
    by simp
  also have "\<dots> = map_option (apfst ((#) c)) (scanstring (concat (map escape_char s) @ DQ # rest))"
    by (rule scanstring_escape_char)
  finally show ?case using Cons.IH by simp
qed

lemma scanstring_encode_str:
  "scanstring (tl (encode_str s) @ rest) = Some (s, rest)"
  using scanstring_escaped [of s rest] by (simp add: encode_str_def)

lemma skip_ws_id: "s = [] \<or> \<not> is_ws (hd s) \<Longrightarrow> skip_ws s = s"
  by (cases s) (auto simp: skip_ws_def)

lemma skip_ws_space: "skip_ws (CHR '' '' # s) = skip_ws s"
  by (simp add: skip_ws_def is_ws_def)

lemma not_ws_simps [simp]:
  "\<not> is_ws (CHR '','')" "\<not> is_ws (CHR '']'')" "\<not> is_ws (CHR ''}'')" "\<not> is_ws (CHR '':'')"
  "\<not> is_ws DQ" "\<not> is_ws (CHR ''['')" "\<not> is_ws (CHR ''{'')"
  by (simp_all add: is_ws_def)

lemma update_fresh: "k \<notin> fst ` set al \<Longrightarrow> AList.update k v al = al @ [(k, v)]"
  by (induction al) auto

lemma py_dict_acc:
  "distinct (map fst (acc @ ps))
     \<Longrightarrow> foldl (\<lambda>d kv. AList.update (fst kv) (snd kv) d) acc ps = acc @ ps"
proof (induction ps arbitrary: acc)
  case Nil
  then show ?case by simp
next
  case (Cons p ps)
  have fresh: "fst p \<notin> fst ` set acc" using Cons.prems by auto
  have "distinct (map fst ((acc @ [p]) @ ps))" using Cons.prems by simp
  from Cons.IH [OF this] show ?case
    by (simp add: update_fresh [OF fresh])
qed

lemma py_dict_distinct: "distinct (map fst ps) \<Longrightarrow> py_dict ps = ps"
  using py_dict_acc [of "[]" ps] by (simp add: py_dict_def)

lemma starts_value_append: "starts_value s \<Longrightarrow> starts_value (s @ t)"
  by (auto simp: starts_value_def)

lemma hd_show_int: "show_int i \<noteq> [] \<and> (is_digit (hd (show_int i)) \<or> hd (show_int i) = CHR ''-'')"
proof -
  have "is_digit (hd (show_nat n))" for n
    using show_nat_digits [of n] show_nat_nonempty [of n] by (cases "show_nat n") auto
  then show ?thesis using show_nat_nonempty by (auto simp: show_int_def)
qed

lemma starts_value_encode: "serializable v \<Longrightarrow> starts_value (encode v)"
proof (cases v)
  case (PyInt i)
  then show ?thesis
    using hd_show_int [of i] by (auto simp: starts_value_def is_ws_def is_digit_def)
qed (auto simp: starts_value_def is_ws_def encode_str_def)

lemma starts_value_encode_str: "starts_value (encode_str k @ t)"
  by (simp add: starts_value_def encode_str_def)

text \<open>One step of \<open>parse_value\<close> for each kind of value.\<close>

lemma parse_value_none: "parse_value (Suc n) (''null'' @ rest) = Some (PyNone, rest)"
  by simp

lemma parse_value_true: "parse_value (Suc n) (''true'' @ rest) = Some (PyBool True, rest)"
  by simp

lemma parse_value_false: "parse_value (Suc n) (''false'' @ rest) = Some (PyBool False, rest)"
  by simp

lemma parse_value_str: "parse_value (Suc n) (encode_str s @ rest) = Some (PyStr s, rest)"
  using scanstring_escaped [of s rest] by (simp add: encode_str_def)

lemma parse_value_number:
  assumes "is_digit c \<or> c = CHR ''-''"
  shows "parse_value (Suc n) (c # r) = map_option (apfst PyInt) (scan_int (c # r))"
proof -
  have "c \<noteq> DQ" "c \<noteq> CHR ''{''" "c \<noteq> CHR ''[''" "c \<noteq> CHR ''n''" "c \<noteq> CHR ''t''"
    "c \<noteq> CHR ''f''"
    using assms by (auto simp: is_digit_def)
  then show ?thesis by (cases r) auto
qed

lemma parse_value_int:
  assumes "follows rest"
  shows "parse_value (Suc n) (show_int i @ rest) = Some (PyInt i, rest)"
proof -
  obtain c r where cr: "show_int i = c # r" using hd_show_int [of i] by (cases "show_int i") auto
  with hd_show_int [of i] have c: "is_digit c \<or> c = CHR ''-''" by simp
  have "parse_value (Suc n) (c # (r @ rest)) = map_option (apfst PyInt) (scan_int (c # (r @ rest)))"
    using c by (rule parse_value_number)
  then show ?thesis
    using scan_int_show_int [OF assms, of i] cr by simp
qed

lemma parse_value_empty_list: "parse_value (Suc n) (''[]'' @ rest) = Some (PyList [], rest)"
  by (simp add: skip_ws_id)

lemma parse_value_empty_dict: "parse_value (Suc n) (''{}'' @ rest) = Some (PyDict [], rest)"
  by (simp add: skip_ws_id)

lemma parse_value_list:
  assumes "starts_value body"
  shows "parse_value (Suc n) (CHR ''['' # body) = map_option (apfst PyList) (parse_elems n body)"
proof -
  obtain c r where cr: "body = c # r" "\<not> is_ws c" "c \<noteq> CHR '']''"
    using assms by (cases body) (auto simp: starts_value_def)
  then have "skip_ws body = c # r" by (simp add: skip_ws_id)
  with cr show ?thesis by simp
qed

lemma parse_value_dict:
  assumes "starts_value body"
  shows "parse_value (Suc n) (CHR ''{'' # body)
           = map_option (apfst (\<lambda>ps. PyDict (py_dict ps))) (parse_members n body)"
proof -
  obtain c r where cr: "body = c # r" "\<not> is_ws c" "c \<noteq> CHR ''}''"
    using assms by (cases body) (auto simp: starts_value_def)
  then have "skip_ws body = c # r" by (simp add: skip_ws_id)
  with cr show ?thesis by simp
qed

lemma parse_elems_last:
  "parse_value n s = Some (v, CHR '']'' # r) \<Longrightarrow> parse_elems (Suc n) s = Some ([v], r)"
  by (simp add: skip_ws_id)

lemma parse_elems_more:
  assumes "parse_value n s = Some (v, '', '' @ r)" and "starts_value r"
  shows "parse_elems (Suc n) s = map_option (apfst ((#) v)) (parse_elems n r)"
proof -
  have "skip_ws r = r" using assms(2) by (simp add: skip_ws_id starts_value_def)
  with assms(1) show ?thesis by (simp add: skip_ws_id skip_ws_space)
qed

lemma parse_members_last:
  assumes "parse_value n body = Some (v, CHR ''}'' # r)" and "starts_value body"
  shows "parse_members (Suc n) (encode_str k @ '': '' @ body) = Some ([(k, v)], r)"
proof -
  have sb: "skip_ws body = body" using assms(2) by (simp add: skip_ws_id starts_value_def)
  have sc: "scanstring (concat (map escape_char k) @ DQ # '': '' @ body) = Some (k, '': '' @ body)"
    by (rule scanstring_escaped)
  show ?thesis
    using assms(1) sc sb by (simp add: encode_str_def skip_ws_id skip_ws_space)
qed

lemma parse_members_more:
  assumes "parse_value n body = Some (v, '', '' @ r)" and "starts_value body"
    and "starts_value r"
  shows "parse_members (Suc n) (encode_str k @ '': '' @ body)
           = map_option (apfst ((#) (k, v))) (parse_members n r)"
proof -
  have sb: "skip_ws body = body" using assms(2) by (simp add: skip_ws_id starts_value_def)
  have sr: "skip_ws r = r" using assms(3) by (simp add: skip_ws_id starts_value_def)
  have sc: "scanstring (concat (map escape_char k) @ DQ # '': '' @ body) = Some (k, '': '' @ body)"
    by (rule scanstring_escaped)
  show ?thesis
    using assms(1) sc sb sr by (simp add: encode_str_def skip_ws_id skip_ws_space)
qed

lemma follows_simps [simp]: "follows []" "follows (CHR '']'' # r)" "follows (CHR ''}'' # r)"
  "follows (CHR '','' # r)"
  by (simp_all add: follows_def)

lemma starts_value_join:
  assumes "xs \<noteq> []" and "starts_value (hd xs)"
  shows "starts_value (join_comma xs @ t)"
proof -
  obtain x ys where "xs = x # ys" using assms(1) by (cases xs) auto
  with assms(2) show ?thesis
    by (cases ys) (auto simp: starts_value_def)
qed

lemma parse_elems_join:
  assumes "\<And>x fuel rest. x \<in> set xs \<Longrightarrow> length (encode x) \<le> fuel \<Longrightarrow> follows rest
             \<Longrightarrow> parse_value fuel (encode x @ rest) = Some (x, rest)"
    and "\<forall>x\<in>set xs. serializable x" and "xs \<noteq> []"
    and "length (join_comma (map encode xs)) < fuel"
  shows "parse_elems fuel (join_comma (map encode xs) @ CHR '']'' # rest) = Some (xs, rest)"
  using assms
proof (induction xs arbitrary: fuel)
  case Nil
  then show ?case by simp
next
  case (Cons x xs)
  obtain n where fuel: "fuel = Suc n" using Cons.prems(4) by (cases fuel) auto
  show ?case
  proof (cases xs)
    case Nil
    have "length (encode x) \<le> n" using Cons.prems(4) Nil fuel by simp
    then have "parse_value n (encode x @ CHR '']'' # rest) = Some (x, CHR '']'' # rest)"
      using Cons.prems(1) [of x n "CHR '']'' # rest"] by simp
    then have "parse_elems (Suc n) (encode x @ CHR '']'' # rest) = Some ([x], rest)"
      by (rule parse_elems_last)
    then show ?thesis using Nil fuel by (simp del: parse_value.simps)
  next
    case (Cons y ys)
    let ?J = "join_comma (map encode xs) @ CHR '']'' # rest"
    have len: "length (encode x) + 2 + length (join_comma (map encode xs)) < fuel"
      using Cons.prems(4) Cons by simp
    have "length (encode x) \<le> n" using len fuel by simp
    then have pv: "parse_value n (encode x @ '', '' @ ?J) = Some (x, '', '' @ ?J)"
      using Cons.prems(1) [of x n "'', '' @ ?J"] by simp
    have sv: "starts_value ?J"
      using starts_value_join [of "map encode xs" "CHR '']'' # rest"] Cons Cons.prems(2)
      by (simp add: starts_value_encode)
    have IH: "parse_elems n ?J = Some (xs, rest)"
    proof (rule Cons.IH)
      show "xs \<noteq> []" using Cons by simp
      show "\<forall>x\<in>set xs. serializable x" using Cons.prems(2) by simp
      show "length (join_comma (map encode xs)) < n" using len fuel by simp
      show "parse_value fuel (encode x @ rest) = Some (x, rest)"
        if "x \<in> set xs" "length (encode x) \<le> fuel" "follows rest" for x fuel rest
        using that Cons.prems(1) by simp
    qed
    have "parse_elems (Suc n) (encode x @ '', '' @ ?J) = map_option (apfst ((#) x)) (parse_elems n ?J)"
      using pv sv by (rule parse_elems_more)
    then show ?thesis using IH fuel Cons by simp
  qed
qed

lemma parse_members_join:
  assumes "\<And>kv fuel rest. kv \<in> set kvs \<Longrightarrow> length (encode (snd kv)) \<le> fuel \<Longrightarrow> follows rest
             \<Longrightarrow> parse_value fuel (encode (snd kv) @ rest) = Some (snd kv, rest)"
    and "\<forall>kv\<in>set kvs. serializable (snd kv)" and "kvs \<noteq> []"
    and "length (join_comma (map (\<lambda>kv. encode_str (fst kv) @ '': '' @ encode (snd kv)) kvs)) < fuel"
  shows "parse_members fuel
           (join_comma (map (\<lambda>kv. encode_str (fst kv) @ '': '' @ encode (snd kv)) kvs)
              @ CHR ''}'' # rest) = Some (kvs, rest)"
  using assms
proof (induction kvs arbitrary: fuel)
  case Nil
  then show ?case by simp
next
  case (Cons kv kvs)
  obtain k v where kv: "kv = (k, v)" by (cases kv)
  obtain n where fuel: "fuel = Suc n" using Cons.prems(4) by (cases fuel) auto
  let ?m = "\<lambda>kv. encode_str (fst kv) @ '': '' @ encode (snd kv)"
  have ser: "serializable v" using Cons.prems(2) kv by simp
  show ?case
  proof (cases kvs)
    case Nil
    have "length (encode v) \<le> n" using Cons.prems(4) Nil fuel kv by simp
    then have "parse_value n (encode v @ CHR ''}'' # rest) = Some (v, CHR ''}'' # rest)"
      using Cons.prems(1) [of kv n "CHR ''}'' # rest"] kv by simp
    moreover have "starts_value (encode v @ CHR ''}'' # rest)"
      using ser by (simp add: starts_value_encode starts_value_append)
    ultimately have "parse_members (Suc n) (encode_str k @ '': '' @ encode v @ CHR ''}'' # rest)
                       = Some ([(k, v)], rest)"
      by (rule parse_members_last)
    then show ?thesis using Nil fuel kv by simp
  next
    case c: (Cons kv' kvs')
    let ?J = "join_comma (map ?m kvs) @ CHR ''}'' # rest"
    have len: "length (?m kv) + 2 + length (join_comma (map ?m kvs)) < fuel"
      using Cons.prems(4) c by simp
    have "length (encode v) \<le> n" using len fuel kv by simp
    then have pv: "parse_value n (encode v @ '', '' @ ?J) = Some (v, '', '' @ ?J)"
      using Cons.prems(1) [of kv n "'', '' @ ?J"] kv by simp
    have sb: "starts_value (encode v @ '', '' @ ?J)"
      using ser by (simp add: starts_value_encode starts_value_append)
    have sv: "starts_value ?J"
      using starts_value_join [of "map ?m kvs" "CHR ''}'' # rest"] c
      by (simp add: starts_value_encode_str)
    have IH: "parse_members n ?J = Some (kvs, rest)"
    proof (rule Cons.IH)
      show "kvs \<noteq> []" using c by simp
      show "\<forall>kv\<in>set kvs. serializable (snd kv)" using Cons.prems(2) by simp
      show "length (join_comma (map ?m kvs)) < n" using len fuel by simp
      show "parse_value fuel (encode (snd kv) @ rest) = Some (snd kv, rest)"
        if "kv \<in> set kvs" "length (encode (snd kv)) \<le> fuel" "follows rest" for kv fuel rest
        using that Cons.prems(1) by simp
    qed
    have "parse_members (Suc n) (encode_str k @ '': '' @ (encode v @ '', '' @ ?J))
            = map_option (apfst ((#) (k, v))) (parse_members n ?J)"
      using pv sb sv by (rule parse_members_more)
    then show ?thesis using IH fuel c kv by simp
  qed
qed

lemma parse_value_encode:
  "wf_pyval v \<Longrightarrow> serializable v \<Longrightarrow> length (encode v) \<le> fuel \<Longrightarrow> follows rest
     \<Longrightarrow> parse_value fuel (encode v @ rest) = Some (v, rest)"
proof (induction v arbitrary: fuel rest)
  case PyNone
  then obtain n where "fuel = Suc n" by (cases fuel) auto
  then show ?case using parse_value_none by simp
next
  case (PyBool b)
  then obtain n where "fuel = Suc n" by (cases fuel) (auto split: if_splits)
  then show ?case using parse_value_true parse_value_false by (cases b) simp_all
next
  case (PyInt i)
  have "show_int i \<noteq> []" using hd_show_int by simp
  with PyInt obtain n where "fuel = Suc n" by (cases fuel) auto
  then show ?case using parse_value_int [OF PyInt(4)] by simp
next
  case (PyStr s)
  then obtain n where "fuel = Suc n" by (cases fuel) (auto simp: encode_str_def)
  then show ?case using parse_value_str by simp
next
  case (PyList xs)
  obtain n where fuel: "fuel = Suc n" using PyList.prems(3) by (cases fuel) auto
  show ?case
  proof (cases "xs = []")
    case True
    then show ?thesis using fuel parse_value_empty_list [of n rest] by simp
  next
    case False
    let ?J = "join_comma (map encode xs)"
    have ser: "\<forall>x\<in>set xs. serializable x" using PyList.prems(2) by (simp add: list_all_iff)
    have wf: "\<forall>x\<in>set xs. wf_pyval x" using PyList.prems(1) by (simp add: list_all_iff)
    have sv: "starts_value (?J @ CHR '']'' # rest)"
      using starts_value_join [of "map encode xs" "CHR '']'' # rest"] False ser
      by (cases xs) (simp_all add: starts_value_encode)
    have len: "length ?J < n" using PyList.prems(3) fuel by simp
    have el: "parse_elems n (?J @ CHR '']'' # rest) = Some (xs, rest)"
    proof (rule parse_elems_join [OF _ ser False len])
      show "parse_value fuel (encode x @ rest) = Some (x, rest)"
        if "x \<in> set xs" "length (encode x) \<le> fuel" "follows rest" for x fuel rest
        using that wf ser PyList.IH by blast
    qed
    have "parse_value (Suc n) (CHR ''['' # (?J @ CHR '']'' # rest))
            = map_option (apfst PyList) (parse_elems n (?J @ CHR '']'' # rest))"
      using sv by (rule parse_value_list)
    then show ?thesis using el fuel by simp
  qed
next
  case (PyDict kvs)
  obtain n where fuel: "fuel = Suc n" using PyDict.prems(3) by (cases fuel) auto
  show ?case
  proof (cases "kvs = []")
    case True
    then show ?thesis using fuel parse_value_empty_dict [of n rest] by simp
  next
    case False
    let ?m = "\<lambda>kv. encode_str (fst kv) @ '': '' @ encode (snd kv)"
    let ?J = "join_comma (map ?m kvs)"
    have ser: "\<forall>kv\<in>set kvs. serializable (snd kv)"
      using PyDict.prems(2) by (simp add: list_all_iff)
    have wf: "\<forall>kv\<in>set kvs. wf_pyval (snd kv)" and dist: "distinct (map fst kvs)"
      using PyDict.prems(1) by (simp_all add: list_all_iff)
    have sv: "starts_value (?J @ CHR ''}'' # rest)"
      using starts_value_join [of "map ?m kvs" "CHR ''}'' # rest"] False
      by (cases kvs) (simp_all add: starts_value_encode_str)
    have len: "length ?J < n" using PyDict.prems(3) fuel by simp
    have el: "parse_members n (?J @ CHR ''}'' # rest) = Some (kvs, rest)"
    proof (rule parse_members_join [OF _ ser False len])
      show "parse_value fuel (encode (snd kv) @ rest) = Some (snd kv, rest)"
        if "kv \<in> set kvs" "length (encode (snd kv)) \<le> fuel" "follows rest" for kv fuel rest
      proof -
        have "snd kv \<in> Basic_BNFs.snds kv" by (cases kv) simp
        with that wf ser PyDict.IH show ?thesis by blast
      qed
    qed
    have "parse_value (Suc n) (CHR ''{'' # (?J @ CHR ''}'' # rest))
            = map_option (apfst (\<lambda>ps. PyDict (py_dict ps))) (parse_members n (?J @ CHR ''}'' # rest))"
      using sv by (rule parse_value_dict)
    then show ?thesis using el fuel dist by (simp add: py_dict_distinct)
  qed
next
  case (PyObject c)
  then show ?case by simp
qed

lemma json_loads_encode:
  assumes "wf_pyval v" and "serializable v"
  shows "json_loads (encode v) = Inr v"
proof -
  have "parse_value (Suc (length (encode v))) (encode v @ []) = Some (v, [])"
    using assms by (intro parse_value_encode) simp_all
  moreover have "skip_ws (encode v) = encode v"
    using starts_value_encode [OF assms(2)] by (simp add: skip_ws_id starts_value_def)
  ultimately show ?thesis by (simp add: json_loads_def skip_ws_def)
qed





subsection \<open>Every table the methods build decodes\<close>

lemma decodes_iff:
  "decodes r =
     ((\<exists>v. json_loads (col_value_json r) = Inr v)
      \<and> (case col_metadata_json r of
            None \<Rightarrow> True
          | Some mj \<Rightarrow> mj = [] \<or> (\<exists>m. json_loads mj = Inr m)))"
  unfolding decodes_def to_memory_def
  by (auto split: sum.splits option.splits)

lemma decodes_stored_row:
  assumes "serializable v" and "wf_pyval v" and "py_truthy md \<longrightarrow> serializable md"
    and "wf_pyval md"
  shows "decodes (stored_row b now k v sc md)"
  using assms unfolding decodes_iff
  by (simp add: stored_row_def json_loads_encode)

lemma decodes_upsert:
  assumes "list_all decodes tbl" and "decodes new"
  shows "list_all decodes (upsert new tbl)"
proof -
  have "decodes (r\<lparr>col_value_json := col_value_json new, col_value_type := t,
                   col_updated := u, col_metadata_json := col_metadata_json new\<rparr>)" for r t u
    using assms(2) by (simp add: decodes_iff)
  with assms show ?thesis
    by (auto simp: upsert_def list_all_iff)
qed

lemma store_keeps_decodes:
  assumes "list_all decodes (memories w)" and "wf_pyval v" and "wf_pyval md"
  shows "list_all decodes (memories (snd (store b fault now w k v sc md)))"
proof (cases "fst (store b fault now w k v sc md) = Inr True")
  case False
  with assms(1) show ?thesis by (simp add: store_memories)
next
  case True
  then have "store b fault now w k v sc md = (Inr True, snd (store b fault now w k v sc md))"
    by (simp add: prod_eq_iff)
  then have "serializable v" "py_truthy md \<longrightarrow> serializable md"
    unfolding store_True_iff by simp_all
  then have "decodes (stored_row b now k v sc md)"
    using assms(2,3) by (intro decodes_stored_row) simp_all
  with assms(1) True show ?thesis by (simp add: store_memories decodes_upsert)
qed

lemma get_keeps_decodes:
  assumes "list_all decodes (memories w)"
  shows "list_all decodes (memories (snd (get b w k sc d)))"
proof -
  have "decodes (r\<lparr>col_access_count := n\<rparr>) = decodes r" for r n
    by (simp add: decodes_iff)
  with assms have "list_all decodes (bump_access k1 k2 (memories w))" for k1 k2
    by (auto simp: bump_access_def list_all_iff)
  with assms show ?thesis
    by (simp add: get_def Let_def split: option.splits)
qed

lemma delete_keeps_decodes:
  assumes "list_all decodes (memories w)"
  shows "list_all decodes (memories (snd (delete b w k sc)))"
  using assms by (simp add: delete_def Let_def list_all_iff)

section \<open>The claims\<close>



text \<open>
  Claim C2, at an input where the code departs from it. ATLAS stores \<^verbatim>\<open>note\<close> under
  scope agent, FORGE stores \<^verbatim>\<open>note\<close> under scope team, and ATLAS reads \<^verbatim>\<open>note\<close>
  with no scope. The read answers with the row \<^verbatim>\<open>ATLAS:note\<close>, and the access count
  of both rows goes from 0 to 1: the row \<^verbatim>\<open>note\<close>, which was not read, is counted
  too.
\<close>

theorem get_bumps_unmatched_entry:
  "fst (get atlas
         (snd (store forge None ''2026-01-18T11:00:00''
                 (snd (store atlas None ''2026-01-18T10:00:00'' empty_world
                         ''note'' (PyInt 41) ''agent'' PyNone))
                 ''note'' (PyInt 42) ''team'' PyNone))
         ''note'' None PyNone) = Inr (PyInt 41)
   \<and> map (\<lambda>r. (col_key r, col_access_count r))
        (memories (snd (get atlas
         (snd (store forge None ''2026-01-18T11:00:00''
                 (snd (store atlas None ''2026-01-18T10:00:00'' empty_world
                         ''note'' (PyInt 41) ''agent'' PyNone))
                 ''note'' (PyInt 42) ''team'' PyNone))
         ''note'' None PyNone)))
      = [(''ATLAS:note'', 1), (''note'', 1)]"
  by (simp add: get_def store_eval atlas_name forge_name show41 show42 loads41 empty_world_def
        select_by_key_def bump_access_def)

text \<open>
  Claim C3 as stated fails: FORGE created the row \<^verbatim>\<open>note\<close>; ATLAS overwrites it, the
  store succeeds, and the owner of the row is still FORGE.
\<close>

theorem store_overwrite_owner_counterexample:
  "map_option col_owner (select_by_key ''note'' (memories demo_world)) = Some ''FORGE''
   \<and> agent_name atlas = ''ATLAS''
   \<and> fst (store atlas None ''2026-01-19T08:00:00'' demo_world ''note'' (PyInt 41) ''team'' PyNone)
       = Inr True
   \<and> map_option col_owner
        (select_by_key ''note''
           (memories (snd (store atlas None ''2026-01-19T08:00:00'' demo_world
                             ''note'' (PyInt 41) ''team'' PyNone))))
       = Some ''FORGE''"
  by (simp add: store_eval atlas_name show41 demo_world_def demo_rows select_by_key_def)

text \<open>
  Claim C3, amended. After a successful \<^verbatim>\<open>store\<close> the owner of the entry is the owner
  it had before where the entry existed (the agent that created it), and the calling
  agent's name in upper case where the call created the entry.
\<close>

theorem store_owner_is_creator:
  assumes "store b fault now w k v sc md = (Inr True, w')"
  shows "let sk = (if sc = ''agent'' then agent_name b @ '':'' @ k else k)
         in map_option col_owner (select_by_key sk (memories w'))
              = (case select_by_key sk (memories w) of
                   Some old \<Rightarrow> Some (col_owner old)
                 | None \<Rightarrow> Some (agent_name b))"
proof -
  have w': "memories w' = upsert (stored_row b now k v sc md) (memories w)"
    using assms unfolding store_True_iff by simp
  show ?thesis
    using select_upsert_same [of "stored_row b now k v sc md" "memories w"]
    unfolding Let_def w'
    by (simp add: stored_row_def split: option.splits)
qed

theorem store_owner_is_creator_witness:
  "store atlas None ''2026-01-19T08:00:00'' demo_world ''note'' (PyInt 41) ''team'' PyNone
     = (Inr True,
        \<lparr>memories = [row_agent_note,
                     row_team_note\<lparr>col_value_json := ''41'',
                                   col_updated := ''2026-01-19T08:00:00''\<rparr>,
                     row_team_status],
         stdout = []\<rparr>)
   \<and> col_owner row_team_note = ''FORGE''"
proof -
  have h: "store atlas None ''2026-01-19T08:00:00'' demo_world ''note'' (PyInt 41) ''team'' PyNone
     = (Inr True,
        \<lparr>memories = [row_agent_note,
                     row_team_note\<lparr>col_value_json := ''41'',
                                   col_updated := ''2026-01-19T08:00:00''\<rparr>,
                     row_team_status],
         stdout = []\<rparr>)"
    by (simp add: store_eval atlas_name show41 demo_world_def demo_rows)
  show ?thesis
    using store_owner_is_creator [OF h] h
    by (simp add: demo_rows)
qed












text \<open>
  Claim C8. \<^verbatim>\<open>delete(k, s)\<close> prefixes the key with the agent's name exactly when \<open>s\<close> is
  \<^verbatim>\<open>"agent"\<close>, and probes nothing else. It removes the rows with that storage key and
  no other row, prints nothing, never raises, and answers whether a row was removed.
  Where no row has the storage key the answer is \<^verbatim>\<open>False\<close> and nothing changes.
\<close>

theorem delete_only_derived_key:
  "let sk = (if sc = Some ''agent'' then agent_name b @ '':'' @ k else k);
       res = delete b w k sc
   in memories (snd res) = filter (\<lambda>r. col_key r \<noteq> sk) (memories w)
      \<and> stdout (snd res) = stdout w
      \<and> fst res = Inr (list_ex (\<lambda>r. col_key r = sk) (memories w))
      \<and> fst res = Inr (memories (snd res) \<noteq> memories w)
      \<and> (\<not> list_ex (\<lambda>r. col_key r = sk) (memories w) \<longrightarrow> res = (Inr False, w))"
proof -
  define sk where "sk = (if sc = Some ''agent'' then agent_name b @ '':'' @ k else k)"
  have cnt: "(0 < length (filter (\<lambda>r. col_key r = sk) (memories w)))
               = list_ex (\<lambda>r. col_key r = sk) (memories w)"
    by (simp add: list_ex_iff filter_empty_conv)
  have chg: "(filter (\<lambda>r. col_key r \<noteq> sk) (memories w) \<noteq> memories w)
               = list_ex (\<lambda>r. col_key r = sk) (memories w)"
    by (simp add: filter_neq_iff)
  have same: "\<not> list_ex (\<lambda>r. col_key r = sk) (memories w)
               \<Longrightarrow> filter (\<lambda>r. col_key r \<noteq> sk) (memories w) = memories w"
    using chg by blast
  show ?thesis
    unfolding Let_def delete_def sk_def [symmetric]
    using cnt chg same by simp
qed

theorem delete_only_derived_key_witness:
  "\<not> list_ex (\<lambda>r. col_key r = ''ghost'') (memories demo_world)
   \<and> delete atlas demo_world ''ghost'' None = (Inr False, demo_world)"
  using delete_only_derived_key [of None atlas "''ghost''" demo_world]
  by (simp add: Let_def demo_world_def row_agent_note_def row_team_note_def row_team_status_def)

text \<open>
  Claim C9 as stated fails: when SQLite fails during the write, \<^verbatim>\<open>store\<close> raises
  nothing. It prints the cause and answers \<^verbatim>\<open>False\<close>.
\<close>

theorem store_write_failure_counterexample:
  "store atlas (Some (WriteFails ''disk I/O error'')) ''2026-01-19T08:00:00'' demo_world
         ''note'' (PyInt 42) ''team'' PyNone
     = (Inr False, demo_world\<lparr>stdout := [''Database error: disk I/O error'']\<rparr>)"
  by (simp add: store_eval demo_world_def)

text \<open>
  Claim C9, amended. For arguments that pass validation and serialisation, a failure of
  SQLite during the write is caught: \<^verbatim>\<open>store\<close> prints \<^verbatim>\<open>Database error:\<close> and the
  cause, answers \<^verbatim>\<open>False\<close>, and leaves every entry as it was. A failure to connect is
  raised as the exception of SQLite itself, and leaves every entry as it was too.
\<close>

theorem store_write_failure_returns_False:
  assumes "k \<noteq> []" and "sc \<in> set [''agent'', ''team'', ''global'']"
    and "serializable v" and "py_truthy md \<longrightarrow> serializable md"
  shows "store b (Some (WriteFails msg)) now w k v sc md
           = (Inr False, w\<lparr>stdout := stdout w @ [''Database error: '' @ msg]\<rparr>)
       \<and> store b (Some (ConnectFails msg)) now w k v sc md = (Inl (OperationalError msg), w)"
  using assms unfolding store_def Let_def json_dumps_def by auto

theorem store_write_failure_returns_False_witness:
  "''note'' \<noteq> [] \<and> ''team'' \<in> set [''agent'', ''team'', ''global''] \<and> serializable (PyInt 42)
   \<and> \<not> py_truthy PyNone
   \<and> memories (snd (store atlas (Some (WriteFails ''database is locked'')) ''2026-01-19T08:00:00''
                       demo_world ''note'' (PyInt 42) ''team'' PyNone)) = memories demo_world
   \<and> fst (store atlas (Some (WriteFails ''database is locked'')) ''2026-01-19T08:00:00''
                       demo_world ''note'' (PyInt 42) ''team'' PyNone) = Inr False"
proof -
  have 1: "''note'' \<noteq> []" by simp
  have 2: "''team'' \<in> set [''agent'', ''team'', ''global'']" by simp
  have 3: "serializable (PyInt 42)" by simp
  have 4: "py_truthy PyNone \<longrightarrow> serializable PyNone" by simp
  show ?thesis
    using store_write_failure_returns_False [OF 1 2 3 4, of atlas "''database is locked''"
            "''2026-01-19T08:00:00''" demo_world]
    by simp
qed



end
